theory Spec2Isabelle
  imports Complex_Main "HOL-Library.Log_Nat"
begin

section \<open>Proliphix thermostat client: the OID table and the device proxy\<close>

text \<open>
  A shallow embedding of \<^verbatim>\<open>proliphix/proliphix.py\<close>. Python strings are modelled as
  \<^typ>\<open>string\<close>, one \<^typ>\<open>char\<close> per code point (code points below 256). Dictionaries
  whose iteration order the code relies on are association lists in insertion order.
\<close>

subsection \<open>String primitives of the language\<close>

text \<open>\<^verbatim>\<open>s.split(c)\<close> for a one-character separator: every occurrence cuts, and the
  result always has at least one piece.\<close>

fun split_str :: "char \<Rightarrow> string \<Rightarrow> string list" where
  "split_str c [] = [[]]"
| "split_str c (x # xs) =
     (if x = c then [] # split_str c xs
      else (case split_str c xs of
              [] \<Rightarrow> [[x]]
            | w # ws \<Rightarrow> (x # w) # ws))"

text \<open>\<^verbatim>\<open>sep.join(parts)\<close>.\<close>

fun join_str :: "string \<Rightarrow> string list \<Rightarrow> string" where
  "join_str sep [] = []"
| "join_str sep [p] = p"
| "join_str sep (p # q # ps) = p @ sep @ join_str sep (q # ps)"


subsection \<open>Exceptions\<close>

text \<open>The exceptions the modelled code and the built-ins it calls can raise.
  \<open>TransportError\<close> stands for whatever \<^verbatim>\<open>requests.post\<close> raises.\<close>

datatype pyexn =
    KeyError string
  | ValueError
  | OverflowError
  | ZeroDivisionError
  | TransportError string

subsection \<open>Floating-point numbers of the language\<close>

text \<open>
  A Python \<^verbatim>\<open>float\<close> is an IEEE 754 binary64 number. \<open>Fin r\<close> is the finite double
  whose exact value is the rational \<open>r\<close> (\<open>Fin 0\<close> is \<open>+0.0\<close>), \<open>NegZero\<close> is
  \<open>-0.0\<close>. Every operation rounds its exact result to the nearest double, ties to even.
\<close>

datatype pyfloat = Fin rat | NegZero | PosInf | NegInf | NaN

definition pow2 :: "int \<Rightarrow> rat" where
  "pow2 e = (if 0 \<le> e then 2 ^ nat e else 1 / 2 ^ nat (- e))"

text \<open>\<open>ilog2 a\<close> is the binary exponent of a positive rational: \<open>2^e \<le> a < 2^(e+1)\<close>;
  \<open>bitlen n\<close> is the number of binary digits of a positive integer.\<close>

definition ilog2 :: "rat \<Rightarrow> int" where
  "ilog2 a = (if 1 \<le> a then bitlen \<lfloor>a\<rfloor> - 1 else - bitlen (\<lceil>1 / a\<rceil> - 1))"

definition round_half_even :: "rat \<Rightarrow> int" where
  "round_half_even x =
     (let f = \<lfloor>x\<rfloor>; d = x - of_int f
      in if d < 1 / 2 then f
         else if 1 / 2 < d then f + 1
         else if even f then f else f + 1)"

text \<open>Rounding a rational to binary64: 53 significant bits, least exponent \<open>-1074\<close>
  (subnormals), overflow to infinity from \<open>2^1024\<close> on, underflow to a signed zero.\<close>

definition round_double :: "rat \<Rightarrow> pyfloat" where
  "round_double r =
     (if r = 0 then Fin 0
      else
        let a = \<bar>r\<bar>;
            e = max (ilog2 a - 52) (- 1074);
            m = round_half_even (a / pow2 e);
            v = of_int m * pow2 e
        in if pow2 1024 \<le> v then (if r < 0 then NegInf else PosInf)
           else if m = 0 then (if r < 0 then NegZero else Fin 0)
           else Fin (if r < 0 then - v else v))"

fun fl_is_inf :: "pyfloat \<Rightarrow> bool" where
  "fl_is_inf PosInf = True"
| "fl_is_inf NegInf = True"
| "fl_is_inf _ = False"

fun fl_is_zero :: "pyfloat \<Rightarrow> bool" where
  "fl_is_zero (Fin r) = (r = 0)"
| "fl_is_zero NegZero = True"
| "fl_is_zero _ = False"

text \<open>The sign bit.\<close>

fun fl_neg :: "pyfloat \<Rightarrow> bool" where
  "fl_neg (Fin r) = (r < 0)"
| "fl_neg NegZero = True"
| "fl_neg NegInf = True"
| "fl_neg _ = False"

fun fl_val :: "pyfloat \<Rightarrow> rat" where
  "fl_val (Fin r) = r"
| "fl_val _ = 0"

definition fl_zero :: "bool \<Rightarrow> pyfloat" where
  "fl_zero neg = (if neg then NegZero else Fin 0)"

definition fl_inf :: "bool \<Rightarrow> pyfloat" where
  "fl_inf neg = (if neg then NegInf else PosInf)"

text \<open>\<^verbatim>\<open>x * y\<close> on two floats.\<close>

definition fl_mul :: "pyfloat \<Rightarrow> pyfloat \<Rightarrow> pyfloat" where
  "fl_mul x y =
     (if x = NaN \<or> y = NaN then NaN
      else if (fl_is_inf x \<and> fl_is_zero y) \<or> (fl_is_zero x \<and> fl_is_inf y) then NaN
      else if fl_is_inf x \<or> fl_is_inf y then fl_inf (fl_neg x \<noteq> fl_neg y)
      else if fl_is_zero x \<or> fl_is_zero y then fl_zero (fl_neg x \<noteq> fl_neg y)
      else round_double (fl_val x * fl_val y))"

text \<open>\<^verbatim>\<open>x / y\<close> on two floats: a zero divisor raises before anything else is looked at.\<close>

definition fl_div :: "pyfloat \<Rightarrow> pyfloat \<Rightarrow> pyexn + pyfloat" where
  "fl_div x y =
     (if fl_is_zero y then Inl ZeroDivisionError
      else if x = NaN \<or> y = NaN then Inr NaN
      else if fl_is_inf x \<and> fl_is_inf y then Inr NaN
      else if fl_is_inf x then Inr (fl_inf (fl_neg x \<noteq> fl_neg y))
      else if fl_is_inf y \<or> fl_is_zero x then Inr (fl_zero (fl_neg x \<noteq> fl_neg y))
      else Inr (round_double (fl_val x / fl_val y)))"

text \<open>Conversion of an \<^verbatim>\<open>int\<close> to a float, as \<^verbatim>\<open>float(n)\<close> and mixed arithmetic do it:
  correctly rounded, \<^verbatim>\<open>OverflowError\<close> when the integer is too large.\<close>

definition int_to_float :: "int \<Rightarrow> pyexn + pyfloat" where
  "int_to_float n =
     (let f = round_double (of_int n)
      in if fl_is_inf f then Inl OverflowError else Inr f)"

text \<open>\<^verbatim>\<open>int(x)\<close> on a float truncates toward zero; infinities and NaN raise.\<close>

fun float_to_int :: "pyfloat \<Rightarrow> pyexn + int" where
  "float_to_int (Fin r) = Inr (if 0 \<le> r then \<lfloor>r\<rfloor> else \<lceil>r\<rceil>)"
| "float_to_int NegZero = Inr 0"
| "float_to_int PosInf = Inl OverflowError"
| "float_to_int NegInf = Inl OverflowError"
| "float_to_int NaN = Inl ValueError"

text \<open>A float literal of the source text, such as \<^verbatim>\<open>68.3\<close>, denotes the double nearest to
  its decimal value.\<close>

definition float_literal :: "rat \<Rightarrow> pyfloat" where
  "float_literal r = round_double r"

subsection \<open>Conversions between strings and numbers\<close>

text \<open>
  \<^verbatim>\<open>float(s)\<close> and \<^verbatim>\<open>int(s)\<close> on a string first drop leading and trailing whitespace:
  the ASCII whitespace characters and, among the code points below 256, the two
  non-ASCII spaces \<open>0x85\<close> and \<open>0xA0\<close>. The limit that recent interpreters put on the
  number of digits of an integer conversion is a run-time setting and is not modelled.
\<close>

definition is_space :: "char \<Rightarrow> bool" where
  "is_space c = ((of_char c :: nat) \<in> {9, 10, 11, 12, 13, 32, 133, 160})"

definition strip_space :: "string \<Rightarrow> string" where
  "strip_space s = rev (dropWhile is_space (rev (dropWhile is_space s)))"

definition is_digit :: "char \<Rightarrow> bool" where
  "is_digit c = (48 \<le> (of_char c :: nat) \<and> (of_char c :: nat) \<le> 57)"

definition digit_val :: "char \<Rightarrow> int" where
  "digit_val c = of_char c - 48"

definition underscore_digit :: "string \<Rightarrow> bool" where
  "underscore_digit cs =
     (case cs of u # d # _ \<Rightarrow> u = CHR ''_'' \<and> is_digit d | _ \<Rightarrow> False)"

text \<open>The longest prefix of the form \<^verbatim>\<open>digit (["_"] digit)*\<close>: its digits, and the rest of
  the string.\<close>

fun digitpart :: "string \<Rightarrow> int list \<times> string" where
  "digitpart [] = ([], [])"
| "digitpart (c # cs) =
     (if \<not> is_digit c then ([], c # cs)
      else (case digitpart (if underscore_digit cs then tl cs else cs) of
              (ds, r) \<Rightarrow> (digit_val c # ds, r)))"

definition digits_value :: "int list \<Rightarrow> int" where
  "digits_value ds = foldl (\<lambda>a d. 10 * a + d) 0 ds"

text \<open>An optional sign: whether it is a minus, and the rest.\<close>

fun take_sign :: "string \<Rightarrow> bool \<times> string" where
  "take_sign [] = (False, [])"
| "take_sign (c # cs) =
     (if c = CHR ''-'' then (True, cs)
      else if c = CHR ''+'' then (False, cs)
      else (False, c # cs))"

text \<open>\<^verbatim>\<open>int(s)\<close> for a string, base ten.\<close>

definition int_of_str :: "string \<Rightarrow> pyexn + int" where
  "int_of_str s =
     (case take_sign (strip_space s) of (neg, r) \<Rightarrow>
        (case digitpart r of (ds, rest) \<Rightarrow>
           if ds = [] \<or> rest \<noteq> [] then Inl ValueError
           else Inr (if neg then - digits_value ds else digits_value ds)))"

definition lower_char :: "char \<Rightarrow> char" where
  "lower_char c =
     (if 65 \<le> (of_char c :: nat) \<and> (of_char c :: nat) \<le> 90
      then char_of ((of_char c :: nat) + 32) else c)"

definition pow10 :: "int \<Rightarrow> rat" where
  "pow10 e = (if 0 \<le> e then 10 ^ nat e else 1 / 10 ^ nat (- e))"

text \<open>The exponent part \<^verbatim>\<open>("e" | "E") [sign] digitpart\<close>, which must reach the end of the
  string; no exponent part is exponent zero.\<close>

definition exponent_part :: "string \<Rightarrow> int option" where
  "exponent_part r =
     (case r of
        [] \<Rightarrow> Some 0
      | c # cs \<Rightarrow>
          if c = CHR ''e'' \<or> c = CHR ''E'' then
            (case take_sign cs of (neg, r') \<Rightarrow>
               (case digitpart r' of (ds, rest) \<Rightarrow>
                  if ds = [] \<or> rest \<noteq> [] then None
                  else Some (if neg then - digits_value ds else digits_value ds)))
          else None)"

text \<open>The unsigned decimal number \<^verbatim>\<open>[digitpart] "." digitpart | digitpart ["."]\<close> with an
  optional exponent: its exact value.\<close>

definition decimal_value :: "string \<Rightarrow> rat option" where
  "decimal_value r =
     (case digitpart r of (ip, r1) \<Rightarrow>
        (case (case r1 of
                 [] \<Rightarrow> ([], r1)
               | c # cs \<Rightarrow> if c = CHR ''.'' then digitpart cs else ([], r1)) of
           (fp, r2) \<Rightarrow>
             if ip = [] \<and> fp = [] then None
             else (case exponent_part r2 of
                     None \<Rightarrow> None
                   | Some ex \<Rightarrow>
                       Some (of_int (digits_value (ip @ fp)) * pow10 (ex - int (length fp))))))"

text \<open>\<^verbatim>\<open>float(s)\<close> for a string: an optional sign, then \<^verbatim>\<open>inf\<close>, \<^verbatim>\<open>infinity\<close> or \<^verbatim>\<open>nan\<close> in
  any case, or a decimal number, correctly rounded.\<close>

definition float_of_str :: "string \<Rightarrow> pyexn + pyfloat" where
  "float_of_str s =
     (case take_sign (strip_space s) of (neg, r) \<Rightarrow>
        if map lower_char r = ''inf'' \<or> map lower_char r = ''infinity'' then Inr (fl_inf neg)
        else if map lower_char r = ''nan'' then Inr NaN
        else (case decimal_value r of
                None \<Rightarrow> Inl ValueError
              | Some v \<Rightarrow>
                  if v = 0 then Inr (fl_zero neg)
                  else Inr (round_double (if neg then - v else v))))"

text \<open>\<^verbatim>\<open>str(n)\<close> for an integer.\<close>

function str_digits :: "int \<Rightarrow> string" where
  "str_digits n =
     (if n < 10 then [char_of (48 + n)]
      else str_digits (n div 10) @ [char_of (48 + n mod 10)])"
  by pat_completeness auto
termination
  by (relation "measure nat") auto

declare str_digits.simps [simp del]

definition str_int :: "int \<Rightarrow> string" where
  "str_int i = (if i < 0 then CHR ''-'' # str_digits (- i) else str_digits i)"

subsection \<open>Values held in the cache\<close>

text \<open>The cache holds what \<^verbatim>\<open>update\<close> stores (strings) and what the setter stores
  (integers).\<close>

datatype pyval = PStr string | PInt int

text \<open>A number handed to the setter: an \<^verbatim>\<open>int\<close> or a \<^verbatim>\<open>float\<close>.\<close>

datatype pynum = NInt int | NFloat pyfloat

text \<open>\<^verbatim>\<open>float(v)\<close>, \<^verbatim>\<open>int(v)\<close> and \<^verbatim>\<open>str(v)\<close> on a cached value.\<close>

fun py_float :: "pyval \<Rightarrow> pyexn + pyfloat" where
  "py_float (PStr s) = float_of_str s"
| "py_float (PInt n) = int_to_float n"

fun py_int :: "pyval \<Rightarrow> pyexn + int" where
  "py_int (PStr s) = int_of_str s"
| "py_int (PInt n) = Inr n"

fun py_str :: "pyval \<Rightarrow> string" where
  "py_str (PStr s) = s"
| "py_str (PInt n) = str_int n"

text \<open>\<^verbatim>\<open>x * n\<close> and \<^verbatim>\<open>x / n\<close> for a number \<open>x\<close> and an \<^verbatim>\<open>int\<close> \<open>n\<close>: integers multiply
  exactly; next to a float the integer is converted to a float first.\<close>

fun num_mul_int :: "pynum \<Rightarrow> int \<Rightarrow> pyexn + pynum" where
  "num_mul_int (NInt a) n = Inr (NInt (a * n))"
| "num_mul_int (NFloat x) n =
     (case int_to_float n of
        Inl e \<Rightarrow> Inl e
      | Inr y \<Rightarrow> Inr (NFloat (fl_mul x y)))"

definition float_div_int :: "pyfloat \<Rightarrow> int \<Rightarrow> pyexn + pyfloat" where
  "float_div_int x n =
     (case int_to_float n of
        Inl e \<Rightarrow> Inl e
      | Inr y \<Rightarrow> fl_div x y)"

text \<open>\<^verbatim>\<open>int(x)\<close> on a number.\<close>

fun num_to_int :: "pynum \<Rightarrow> pyexn + int" where
  "num_to_int (NInt a) = Inr a"
| "num_to_int (NFloat x) = float_to_int x"

subsection \<open>Form encoding\<close>

text \<open>\<^verbatim>\<open>urllib.parse.quote_plus\<close> with no extra safe characters: letters, digits and
  \<^verbatim>\<open>_.-~\<close> stay, a space becomes \<^verbatim>\<open>+\<close>, every other character is written as the
  \<^verbatim>\<open>%XX\<close> escapes of its UTF-8 bytes.\<close>

definition is_unreserved :: "char \<Rightarrow> bool" where
  "is_unreserved c =
     (let n = (of_char c :: nat)
      in (65 \<le> n \<and> n \<le> 90) \<or> (97 \<le> n \<and> n \<le> 122) \<or> (48 \<le> n \<and> n \<le> 57)
         \<or> c = CHR ''_'' \<or> c = CHR ''.'' \<or> c = CHR ''-'' \<or> c = CHR ''~'')"

definition hex_digit :: "nat \<Rightarrow> char" where
  "hex_digit d = (if d < 10 then char_of (48 + d) else char_of (55 + d))"

definition percent_byte :: "nat \<Rightarrow> string" where
  "percent_byte b = [CHR ''%'', hex_digit (b div 16), hex_digit (b mod 16)]"

definition quote_char :: "char \<Rightarrow> string" where
  "quote_char c =
     (let n = (of_char c :: nat)
      in if is_unreserved c then [c]
         else if c = CHR '' '' then ''+''
         else if n < 128 then percent_byte n
         else percent_byte (192 + n div 64) @ percent_byte (128 + n mod 64))"

definition quote_plus :: "string \<Rightarrow> string" where
  "quote_plus s = concat (map quote_char s)"

text \<open>\<^verbatim>\<open>urlencode(d)\<close> on a dictionary, given as its items in order.\<close>

definition urlencode :: "(string \<times> pyval) list \<Rightarrow> string" where
  "urlencode items =
     join_str ''&'' (map (\<lambda>(k, v). quote_plus k @ ''='' @ quote_plus (py_str v)) items)"

text \<open>\<^verbatim>\<open>d[k] = v\<close> on a dictionary given as its items in insertion order: an existing key
  keeps its place, a new key goes to the end.\<close>

fun dict_set :: "('k \<times> 'v) list \<Rightarrow> 'k \<Rightarrow> 'v \<Rightarrow> ('k \<times> 'v) list" where
  "dict_set [] k v = [(k, v)]"
| "dict_set ((k', v') # rest) k v =
     (if k' = k then (k, v) # rest else (k', v') # dict_set rest k v)"

subsection \<open>The OID table\<close>

text \<open>The module constant \<^verbatim>\<open>OIDS\<close>, in the order the dictionary literal lists it.\<close>

definition OIDS :: "(string \<times> string) list" where
  "OIDS =
    [(''1.2'', ''DevName''),
     (''4.1.13'', ''AverageTemp''),
     (''4.1.4'', ''FanState''),
     (''4.1.5'', ''SetbackHeat''),
     (''4.1.6'', ''SetbackCool''),
     (''4.1.2'', ''HvacState''),
     (''4.1.11'', ''CurrentClass''),
     (''4.5.1'', ''Heat1Usage''),
     (''4.5.3'', ''Cool1Usage''),
     (''4.5.5'', ''FanUsage''),
     (''4.5.6'', ''LastUsageReset'')]"

text \<open>\<^verbatim>\<open>OIDS.get(k)\<close>: the value stored under \<open>k\<close>, or \<open>None\<close>.\<close>

definition OIDS_get :: "string \<Rightarrow> string option" where
  "OIDS_get k = map_of OIDS k"

text \<open>\<^verbatim>\<open>_get_oid(name)\<close>: the loop over \<^verbatim>\<open>OIDS.items()\<close> returns the first
  identifier whose value equals \<open>name\<close>, and \<open>None\<close> when the loop runs out.\<close>

fun get_oid_loop :: "(string \<times> string) list \<Rightarrow> string \<Rightarrow> string option" where
  "get_oid_loop [] name = None"
| "get_oid_loop ((oid, value) # rest) name =
     (if value = name then Some oid else get_oid_loop rest name)"

definition get_oid :: "string \<Rightarrow> string option" where
  "get_oid name = get_oid_loop OIDS name"

text \<open>\<^verbatim>\<open>_all_oids()\<close>: \<^verbatim>\<open>"&".join([("OID" + x + "=") for x in OIDS.keys()])\<close>.\<close>

definition all_oids :: string where
  "all_oids = join_str ''&'' (map (\<lambda>x. ''OID'' @ x @ ''='') (map fst OIDS))"

subsection \<open>The device proxy\<close>

text \<open>
  The class \<^verbatim>\<open>PDP\<close>: connection parameters and the cache \<^verbatim>\<open>_data\<close>, a dictionary
  from field name to cached value. \<^verbatim>\<open>__init__\<close> stores its three arguments and an
  empty cache.
\<close>

record pdp =
  host :: string
  user :: string
  passwd :: string
  data :: "string \<rightharpoonup> pyval"

definition init :: "string \<Rightarrow> string \<Rightarrow> string \<Rightarrow> pdp" where
  "init h u pw = \<lparr>host = h, user = u, passwd = pw, data = Map.empty\<rparr>"

text \<open>
  A call \<^verbatim>\<open>requests.post(url, auth=(user, passwd), data=body)\<close>. The device and the
  network are a parameter \<open>post\<close> of the operations: either the exception the call
  raises or the text of the response.
\<close>

record request =
  url :: string
  auth :: "string \<times> string"
  body :: string

type_synonym transport = "request \<Rightarrow> pyexn + string"

text \<open>
  What a method call leaves behind: the exception it raised, if any, the object after
  the call (a method that raises keeps the changes it made before), and the requests it
  handed to \<^verbatim>\<open>requests.post\<close>.
\<close>

record effect =
  raised :: "pyexn option"
  proxy :: pdp
  sent :: "request list"

text \<open>
  The body of the loop of \<^verbatim>\<open>update\<close> over the pieces of the response: an empty piece is
  skipped; \<^verbatim>\<open>oid, value = line.split('=')\<close> needs exactly two parts and raises
  \<^verbatim>\<open>ValueError\<close> otherwise; \<^verbatim>\<open>oid[3:]\<close> is looked up in the table and a found, non-empty
  name gets the value. The debug log line that ends \<^verbatim>\<open>update\<close> changes nothing and is
  left out.
\<close>

fun update_lines :: "(string \<rightharpoonup> pyval) \<Rightarrow> string list \<Rightarrow> pyexn option \<times> (string \<rightharpoonup> pyval)" where
  "update_lines d [] = (None, d)"
| "update_lines d (line # rest) =
     (if line \<noteq> [] then
        (case split_str CHR ''='' line of
           [oid, value] \<Rightarrow>
             (case OIDS_get (drop 3 oid) of
                Some const \<Rightarrow>
                  if const \<noteq> [] then update_lines (d(const \<mapsto> PStr value)) rest
                  else update_lines d rest
              | None \<Rightarrow> update_lines d rest)
         | _ \<Rightarrow> (Some ValueError, d))
      else update_lines d rest)"

definition update :: "transport \<Rightarrow> pdp \<Rightarrow> effect" where
  "update post p =
     (let rq = \<lparr>url = ''http://'' @ host p @ ''/get'',
                auth = (user p, passwd p),
                body = all_oids\<rparr>
      in case post rq of
           Inl e \<Rightarrow> \<lparr>raised = Some e, proxy = p, sent = [rq]\<rparr>
         | Inr text \<Rightarrow>
             (case update_lines (data p) (split_str CHR ''&'' text) of
                (e, d) \<Rightarrow> \<lparr>raised = e, proxy = p\<lparr>data := d\<rparr>, sent = [rq]\<rparr>))"

text \<open>
  \<^verbatim>\<open>_set(**kwargs)\<close>: the keyword arguments are given as the items of the dictionary
  \<^verbatim>\<open>kwargs\<close>, in order. The loop fills the dictionary \<^verbatim>\<open>data\<close>; a name with no
  identifier is passed over.
\<close>

fun set_loop :: "(string \<times> pyval) list \<Rightarrow> (string \<times> pyval) list \<Rightarrow> (string \<times> pyval) list" where
  "set_loop acc [] = acc"
| "set_loop acc ((key, value) # rest) =
     (case get_oid key of
        Some oid \<Rightarrow>
          if oid \<noteq> [] then set_loop (dict_set acc (''OID'' @ oid) value) rest
          else set_loop acc rest
      | None \<Rightarrow> set_loop acc rest)"

definition pdp_set :: "transport \<Rightarrow> pdp \<Rightarrow> (string \<times> pyval) list \<Rightarrow> effect" where
  "pdp_set post p kwargs =
     (let form_data = urlencode (set_loop [] kwargs) @ ''&submit=Submit'';
          rq = \<lparr>url = ''http://'' @ host p @ ''/pdp'',
                auth = (user p, passwd p),
                body = form_data\<rparr>
      in case post rq of
           Inl e \<Rightarrow> \<lparr>raised = Some e, proxy = p, sent = [rq]\<rparr>
         | Inr _ \<Rightarrow> \<lparr>raised = None, proxy = p, sent = [rq]\<rparr>)"

text \<open>\<^verbatim>\<open>self._data[k]\<close>: a missing key raises \<^verbatim>\<open>KeyError\<close>.\<close>

definition data_get :: "pdp \<Rightarrow> string \<Rightarrow> pyexn + pyval" where
  "data_get p k = (case data p k of None \<Rightarrow> Inl (KeyError k) | Some v \<Rightarrow> Inr v)"

text \<open>The properties. \<^verbatim>\<open>cur_temp\<close> and \<^verbatim>\<open>setback_heat\<close>:
  \<^verbatim>\<open>float(self._data[...]) / 10\<close>.\<close>

definition cur_temp :: "pdp \<Rightarrow> pyexn + pyfloat" where
  "cur_temp p =
     (case data_get p ''AverageTemp'' of
        Inl e \<Rightarrow> Inl e
      | Inr v \<Rightarrow> (case py_float v of Inl e \<Rightarrow> Inl e | Inr x \<Rightarrow> float_div_int x 10))"

definition setback_heat :: "pdp \<Rightarrow> pyexn + pyfloat" where
  "setback_heat p =
     (case data_get p ''SetbackHeat'' of
        Inl e \<Rightarrow> Inl e
      | Inr v \<Rightarrow> (case py_float v of Inl e \<Rightarrow> Inl e | Inr x \<Rightarrow> float_div_int x 10))"

text \<open>The setter of \<^verbatim>\<open>setback_heat\<close>: \<^verbatim>\<open>self._data['SetbackHeat'] = int(val * 10)\<close>, then
  \<^verbatim>\<open>self._set(SetbackHeat=self._data['SetbackHeat'])\<close>.\<close>

definition setback_heat_set :: "transport \<Rightarrow> pdp \<Rightarrow> pynum \<Rightarrow> effect" where
  "setback_heat_set post p val =
     (case num_mul_int val 10 of
        Inl e \<Rightarrow> \<lparr>raised = Some e, proxy = p, sent = []\<rparr>
      | Inr tenths \<Rightarrow>
          (case num_to_int tenths of
             Inl e \<Rightarrow> \<lparr>raised = Some e, proxy = p, sent = []\<rparr>
           | Inr n \<Rightarrow>
               (let p' = p\<lparr>data := (data p)(''SetbackHeat'' \<mapsto> PInt n)\<rparr>
                in case data_get p' ''SetbackHeat'' of
                     Inl e \<Rightarrow> \<lparr>raised = Some e, proxy = p', sent = []\<rparr>
                   | Inr v \<Rightarrow> pdp_set post p' [(''SetbackHeat'', v)])))"

text \<open>\<^verbatim>\<open>hvac_state\<close>: \<^verbatim>\<open>int(self._data['HvacState'])\<close>.\<close>

definition hvac_state :: "pdp \<Rightarrow> pyexn + int" where
  "hvac_state p =
     (case data_get p ''HvacState'' of
        Inl e \<Rightarrow> Inl e
      | Inr v \<Rightarrow> py_int v)"

text \<open>\<^verbatim>\<open>name\<close>: the cached value as it is.\<close>

definition name :: "pdp \<Rightarrow> pyexn + pyval" where
  "name p = data_get p ''DevName''"

text \<open>\<^verbatim>\<open>fan_state\<close>: the cached value is compared with the string \<^verbatim>\<open>"2"\<close>; an integer
  is never equal to a string.\<close>

definition fan_state :: "pdp \<Rightarrow> pyexn + string" where
  "fan_state p =
     (case data_get p ''FanState'' of
        Inl e \<Rightarrow> Inl e
      | Inr v \<Rightarrow> Inr (if v = PStr ''2'' then ''On'' else ''Off''))"

text \<open>A transport for concrete runs: a device that answers every request with the same
  text.\<close>

definition answering :: "string \<Rightarrow> transport" where
  "answering resp rq = Inr resp"

section \<open>Properties of the OID table\<close>

lemma OIDS_keys_distinct: "distinct (map fst OIDS)"
  by (simp add: OIDS_def)

lemma OIDS_names_distinct: "distinct (map snd OIDS)"
  by (simp add: OIDS_def)

lemma get_oid_loop_Some_iff:
  "distinct (map snd xs) \<Longrightarrow> get_oid_loop xs nm = Some oid \<longleftrightarrow> (oid, nm) \<in> set xs"
proof (induction xs)
  case Nil
  then show ?case by simp
next
  case (Cons x xs)
  obtain k v where x: "x = (k, v)" by (cases x)
  from Cons.prems have "v \<notin> snd ` set xs" and "distinct (map snd xs)"
    by (auto simp: x)
  with Cons.IH show ?case
    by (auto simp: x rev_image_eqI)
qed

lemma get_oid_loop_None_iff:
  "get_oid_loop xs nm = None \<longleftrightarrow> nm \<notin> snd ` set xs"
proof (induction xs)
  case Nil
  then show ?case by simp
next
  case (Cons x xs)
  obtain k v where x: "x = (k, v)" by (cases x)
  show ?case
  proof (cases "v = nm")
    case True
    then show ?thesis by (simp add: x)
  next
    case False
    with Cons.IH show ?thesis by (simp add: x)
  qed
qed

text \<open>
  Claim C7. The table is a bijection between identifiers and names: \<^verbatim>\<open>_get_oid\<close> returns
  an identifier for a name exactly when the table maps that identifier back to the name,
  every name of the table has such an identifier, and a name that is not in the table
  gets \<open>None\<close> (no exception is part of the result type).
\<close>

theorem get_oid_roundtrip:
  "(get_oid nm = Some oid \<longleftrightarrow> OIDS_get oid = Some nm)
   \<and> (nm \<in> snd ` set OIDS \<longrightarrow> (\<exists>i. get_oid nm = Some i \<and> OIDS_get i = Some nm))
   \<and> (nm \<notin> snd ` set OIDS \<longrightarrow> get_oid nm = None)"
proof -
  have a: "get_oid nm = Some i \<longleftrightarrow> OIDS_get i = Some nm" for i
    unfolding get_oid_def OIDS_get_def
    by (simp add: get_oid_loop_Some_iff [OF OIDS_names_distinct]
        map_of_eq_Some_iff [OF OIDS_keys_distinct])
  have b: "nm \<notin> snd ` set OIDS \<Longrightarrow> get_oid nm = None"
    unfolding get_oid_def by (simp add: get_oid_loop_None_iff)
  have c: "nm \<in> snd ` set OIDS \<Longrightarrow> \<exists>i. get_oid nm = Some i"
    unfolding get_oid_def using get_oid_loop_None_iff [of OIDS nm]
    by (cases "get_oid_loop OIDS nm") auto
  from a b c show ?thesis by blast
qed

theorem get_oid_roundtrip_witness:
  "''SetbackHeat'' \<in> snd ` set OIDS
   \<and> get_oid ''SetbackHeat'' = Some ''4.1.5''
   \<and> OIDS_get ''4.1.5'' = Some ''SetbackHeat''
   \<and> ''Bogus'' \<notin> snd ` set OIDS
   \<and> get_oid ''Bogus'' = None"
  using get_oid_roundtrip [of "''SetbackHeat''" "''4.1.5''"]
    get_oid_roundtrip [of "''Bogus''" "''4.1.5''"]
  by (simp add: OIDS_def OIDS_get_def)

text \<open>
  Claim C8. The query string of \<^verbatim>\<open>_all_oids\<close> cut at \<^verbatim>\<open>&\<close> gives one token per entry of
  the table, in the order of the table, each token \<^verbatim>\<open>OID\<close>, the identifier and \<^verbatim>\<open>=\<close> with
  nothing after it.
\<close>

theorem all_oids_tokens:
  "split_str CHR ''&'' all_oids = map (\<lambda>oid. ''OID'' @ oid @ ''='') (map fst OIDS)
   \<and> length (split_str CHR ''&'' all_oids) = length OIDS
   \<and> all_oids =
       ''OID1.2=&OID4.1.13=&OID4.1.4=&OID4.1.5=&OID4.1.6=&OID4.1.2=&OID4.1.11=&OID4.5.1=&OID4.5.3=&OID4.5.5=&OID4.5.6=''"
  by (simp add: all_oids_def OIDS_def)

section \<open>Reading the cache\<close>

text \<open>
  Claim C5. Each of the five properties, read while its field is not in the cache,
  raises \<^verbatim>\<open>KeyError\<close> for that field: the result is the exception, not a value. This is
  the state of every field right after construction.
\<close>

theorem accessor_not_cached:
  "(data p ''AverageTemp'' = None \<longrightarrow> cur_temp p = Inl (KeyError ''AverageTemp''))
   \<and> (data p ''SetbackHeat'' = None \<longrightarrow> setback_heat p = Inl (KeyError ''SetbackHeat''))
   \<and> (data p ''HvacState'' = None \<longrightarrow> hvac_state p = Inl (KeyError ''HvacState''))
   \<and> (data p ''DevName'' = None \<longrightarrow> name p = Inl (KeyError ''DevName''))
   \<and> (data p ''FanState'' = None \<longrightarrow> fan_state p = Inl (KeyError ''FanState''))
   \<and> data (init h u pw) k = None"
  by (simp add: cur_temp_def setback_heat_def hvac_state_def name_def fan_state_def
      data_get_def init_def)

theorem accessor_not_cached_witness:
  "data (init ''thermostat'' ''admin'' ''secret'') ''AverageTemp'' = None
   \<and> cur_temp (init ''thermostat'' ''admin'' ''secret'') = Inl (KeyError ''AverageTemp'')
   \<and> setback_heat (init ''thermostat'' ''admin'' ''secret'') = Inl (KeyError ''SetbackHeat'')
   \<and> hvac_state (init ''thermostat'' ''admin'' ''secret'') = Inl (KeyError ''HvacState'')
   \<and> name (init ''thermostat'' ''admin'' ''secret'') = Inl (KeyError ''DevName'')
   \<and> fan_state (init ''thermostat'' ''admin'' ''secret'') = Inl (KeyError ''FanState'')"
  using accessor_not_cached [of "init ''thermostat'' ''admin'' ''secret''"
      "''thermostat''" "''admin''" "''secret''"]
  by (simp add: init_def)

text \<open>
  Claim C9. With a fan state in the cache, \<^verbatim>\<open>fan_state\<close> returns \<^verbatim>\<open>"On"\<close> when the cached
  value is the string \<^verbatim>\<open>"2"\<close> and \<^verbatim>\<open>"Off"\<close> for every other cached value; it returns one
  of these two strings.
\<close>

theorem fan_state_cached:
  assumes "data p ''FanState'' = Some v"
  shows "fan_state p = Inr (if v = PStr ''2'' then ''On'' else ''Off'')
         \<and> (fan_state p = Inr ''On'' \<or> fan_state p = Inr ''Off'')"
  using assms by (simp add: fan_state_def data_get_def)

theorem fan_state_cached_witness:
  "data ((init ''thermostat'' ''admin'' ''secret'')\<lparr>data := [''FanState'' \<mapsto> PStr ''2'']\<rparr>)
      ''FanState'' = Some (PStr ''2'')
   \<and> fan_state ((init ''thermostat'' ''admin'' ''secret'')\<lparr>data := [''FanState'' \<mapsto> PStr ''2'']\<rparr>)
      = Inr ''On''
   \<and> data ((init ''thermostat'' ''admin'' ''secret'')\<lparr>data := [''FanState'' \<mapsto> PStr ''1'']\<rparr>)
      ''FanState'' = Some (PStr ''1'')
   \<and> fan_state ((init ''thermostat'' ''admin'' ''secret'')\<lparr>data := [''FanState'' \<mapsto> PStr ''1'']\<rparr>)
      = Inr ''Off''"
  using
    fan_state_cached [of "(init ''thermostat'' ''admin'' ''secret'')\<lparr>data := [''FanState'' \<mapsto> PStr ''2'']\<rparr>"
      "PStr ''2''"]
    fan_state_cached [of "(init ''thermostat'' ''admin'' ''secret'')\<lparr>data := [''FanState'' \<mapsto> PStr ''1'']\<rparr>"
      "PStr ''1''"]
  by simp

section \<open>The refresh loop\<close>

lemma update_lines_append:
  "update_lines d (pre @ ls) =
     (case update_lines d pre of
        (None, d') \<Rightarrow> update_lines d' ls
      | (Some e, d') \<Rightarrow> (Some e, d'))"
  by (induction pre arbitrary: d) (auto split: list.splits option.splits)

text \<open>What one piece of the response does: it is passed over, or it stores a string under
  a name of the table, or it stops the loop with \<^verbatim>\<open>ValueError\<close>.\<close>

lemma update_lines_step_disj:
  "update_lines d (line # rest) = update_lines d rest
   \<or> (\<exists>oid w nm. split_str CHR ''='' line = [oid, w]
         \<and> OIDS_get (drop 3 oid) = Some nm
         \<and> update_lines d (line # rest) = update_lines (d(nm \<mapsto> PStr w)) rest)
   \<or> update_lines d (line # rest) = (Some ValueError, d)"
  by (simp split: list.split option.split)

lemma update_lines_step:
  obtains
    (skip) "update_lines d (line # rest) = update_lines d rest"
  | (store) oid w nm where "split_str CHR ''='' line = [oid, w]"
      and "OIDS_get (drop 3 oid) = Some nm"
      and "update_lines d (line # rest) = update_lines (d(nm \<mapsto> PStr w)) rest"
  | (fail) "update_lines d (line # rest) = (Some ValueError, d)"
  using update_lines_step_disj [of d line rest] by blast

lemma update_lines_example:
  "update_lines d (split_str CHR ''&'' ''OID1.2=Kitchen&OID4.1.13=712'')
   = (None, d(''DevName'' \<mapsto> PStr ''Kitchen'', ''AverageTemp'' \<mapsto> PStr ''712''))"
  by (simp add: OIDS_get_def OIDS_def)

declare update_lines.simps(2) [simp del]

lemma update_lines_keeps_keys:
  "k \<in> dom d \<Longrightarrow> k \<in> dom (snd (update_lines d ls))"
proof (induction ls arbitrary: d)
  case Nil
  then show ?case by simp
next
  case (Cons line ls)
  show ?case
  proof (cases rule: update_lines_step [of d line ls])
    case skip
    with Cons show ?thesis by simp
  next
    case (store oid w nm)
    from Cons.prems have "k \<in> dom (d(nm \<mapsto> PStr w))"
      by simp
    then have "k \<in> dom (snd (update_lines (d(nm \<mapsto> PStr w)) ls))"
      by (rule Cons.IH)
    then show ?thesis unfolding store(3) .
  next
    case fail
    with Cons.prems show ?thesis by simp
  qed
qed

lemma update_lines_frame:
  assumes "\<And>line oid w. line \<in> set ls \<Longrightarrow> split_str CHR ''='' line = [oid, w]
      \<Longrightarrow> OIDS_get (drop 3 oid) \<noteq> Some k"
  shows "snd (update_lines d ls) k = d k"
  using assms
proof (induction ls arbitrary: d)
  case Nil
  then show ?case by simp
next
  case (Cons line ls)
  have rest: "snd (update_lines d' ls) k = d' k" for d'
    by (rule Cons.IH) (use Cons.prems in auto)
  show ?case
  proof (cases rule: update_lines_step [of d line ls])
    case skip
    with rest show ?thesis by simp
  next
    case (store oid w nm)
    from Cons.prems [of line oid w] store(1,2) have "nm \<noteq> k" by auto
    with rest [of "d(nm \<mapsto> PStr w)"] store(3) show ?thesis by simp
  next
    case fail
    then show ?thesis by simp
  qed
qed

lemma update_lines_stores_strings:
  "snd (update_lines d ls) k = d k \<or> (\<exists>s. snd (update_lines d ls) k = Some (PStr s))"
proof (induction ls arbitrary: d)
  case Nil
  then show ?case by simp
next
  case (Cons line ls)
  show ?case
  proof (cases rule: update_lines_step [of d line ls])
    case skip
    with Cons.IH [of d] show ?thesis by simp
  next
    case (store oid w nm)
    have IH: "snd (update_lines (d(nm \<mapsto> PStr w)) ls) k = (d(nm \<mapsto> PStr w)) k
        \<or> (\<exists>s. snd (update_lines (d(nm \<mapsto> PStr w)) ls) k = Some (PStr s))"
      by (rule Cons.IH)
    show ?thesis
    proof (cases "k = nm")
      case True
      then have "(d(nm \<mapsto> PStr w)) k = Some (PStr w)" by simp
      with IH have "\<exists>s. snd (update_lines (d(nm \<mapsto> PStr w)) ls) k = Some (PStr s)"
        by metis
      then show ?thesis unfolding store(3) ..
    next
      case False
      then have "(d(nm \<mapsto> PStr w)) k = d k" by simp
      with IH show ?thesis unfolding store(3) by simp
    qed
  next
    case fail
    then show ?thesis by simp
  qed
qed

lemma split_str_no_sep: "c \<notin> set s \<Longrightarrow> split_str c s = [s]"
  by (induction s) auto

lemma split_str_pair:
  "c \<notin> set k \<Longrightarrow> c \<notin> set v \<Longrightarrow> split_str c (k @ c # v) = [k, v]"
  by (induction k) (auto simp: split_str_no_sep)

lemma OIDS_get_nonempty: "OIDS_get i = Some nm \<Longrightarrow> nm \<noteq> []"
  by (auto simp: OIDS_get_def OIDS_def split: if_splits)

lemma get_oid_nonempty: "get_oid nm = Some i \<Longrightarrow> i \<noteq> []"
  by (auto simp: get_oid_def OIDS_def split: if_splits)

lemma update_transport_error:
  "post \<lparr>url = ''http://'' @ host p @ ''/get'', auth = (user p, passwd p), body = all_oids\<rparr>
     = Inl e
   \<Longrightarrow> update post p =
       \<lparr>raised = Some e, proxy = p,
        sent = [\<lparr>url = ''http://'' @ host p @ ''/get'', auth = (user p, passwd p),
                  body = all_oids\<rparr>]\<rparr>"
  by (simp add: update_def)

lemma update_response:
  "post \<lparr>url = ''http://'' @ host p @ ''/get'', auth = (user p, passwd p), body = all_oids\<rparr>
     = Inr resp
   \<Longrightarrow> update post p =
       \<lparr>raised = fst (update_lines (data p) (split_str CHR ''&'' resp)),
        proxy = p\<lparr>data := snd (update_lines (data p) (split_str CHR ''&'' resp))\<rparr>,
        sent = [\<lparr>url = ''http://'' @ host p @ ''/get'', auth = (user p, passwd p),
                  body = all_oids\<rparr>]\<rparr>"
  by (simp add: update_def split: prod.split)

text \<open>
  Claim C10. \<^verbatim>\<open>update\<close> never removes a key from the cache, whatever the transport
  answers and whether or not the loop raises. A field keeps its cached value when no
  piece of the response is a pair for its identifier, that is, a piece \<^verbatim>\<open>key=value\<close> whose
  key, less its first three characters, the table maps to the field.
\<close>

theorem update_keeps_cache:
  "dom (data p) \<subseteq> dom (data (proxy (update post p)))
   \<and> ((\<forall>resp line oid w.
          post \<lparr>url = ''http://'' @ host p @ ''/get'', auth = (user p, passwd p),
                body = all_oids\<rparr> = Inr resp
          \<longrightarrow> line \<in> set (split_str CHR ''&'' resp)
          \<longrightarrow> split_str CHR ''='' line = [oid, w]
          \<longrightarrow> OIDS_get (drop 3 oid) \<noteq> Some k)
        \<longrightarrow> data (proxy (update post p)) k = data p k)"
proof -
  let ?rq = "\<lparr>url = ''http://'' @ host p @ ''/get'', auth = (user p, passwd p),
               body = all_oids\<rparr>"
  show ?thesis
  proof (cases "post ?rq")
    case (Inl e)
    then show ?thesis by (simp add: update_transport_error)
  next
    case (Inr resp)
    have upd: "data (proxy (update post p)) = snd (update_lines (data p) (split_str CHR ''&'' resp))"
      using Inr by (simp add: update_response)
    have "dom (data p) \<subseteq> dom (data (proxy (update post p)))"
      unfolding upd using update_lines_keeps_keys by blast
    moreover have "data (proxy (update post p)) k = data p k"
      if "\<forall>resp line oid w. post ?rq = Inr resp
          \<longrightarrow> line \<in> set (split_str CHR ''&'' resp)
          \<longrightarrow> split_str CHR ''='' line = [oid, w]
          \<longrightarrow> OIDS_get (drop 3 oid) \<noteq> Some k"
      unfolding upd
      by (rule update_lines_frame) (use that Inr in blast)
    ultimately show ?thesis by blast
  qed
qed

theorem update_keeps_cache_witness:
  "data ((init ''thermostat'' ''admin'' ''secret'')\<lparr>data := [''FanState'' \<mapsto> PStr ''1'']\<rparr>)
     ''FanState'' = Some (PStr ''1'')
   \<and> data (proxy (update (answering ''OID1.2=Kitchen'')
        ((init ''thermostat'' ''admin'' ''secret'')\<lparr>data := [''FanState'' \<mapsto> PStr ''1'']\<rparr>)))
     ''FanState'' = Some (PStr ''1'')
   \<and> data (proxy (update (answering ''OID1.2=Kitchen'')
        ((init ''thermostat'' ''admin'' ''secret'')\<lparr>data := [''FanState'' \<mapsto> PStr ''1'']\<rparr>)))
     ''DevName'' = Some (PStr ''Kitchen'')"
proof -
  let ?p = "(init ''thermostat'' ''admin'' ''secret'')\<lparr>data := [''FanState'' \<mapsto> PStr ''1'']\<rparr>"
  let ?post = "answering ''OID1.2=Kitchen''"
  have h: "\<forall>resp line oid w.
      ?post \<lparr>url = ''http://'' @ host ?p @ ''/get'', auth = (user ?p, passwd ?p),
              body = all_oids\<rparr> = Inr resp
      \<longrightarrow> line \<in> set (split_str CHR ''&'' resp)
      \<longrightarrow> split_str CHR ''='' line = [oid, w]
      \<longrightarrow> OIDS_get (drop 3 oid) \<noteq> Some ''FanState''"
    by (simp add: answering_def OIDS_get_def OIDS_def)
  have kept: "data (proxy (update ?post ?p)) ''FanState'' = data ?p ''FanState''"
    using update_keeps_cache [of ?p ?post "''FanState''"] h by blast
  have stored: "data (proxy (update ?post ?p)) ''DevName'' = Some (PStr ''Kitchen'')"
    by (simp add: update_def answering_def update_lines.simps OIDS_get_def OIDS_def)
  from kept stored show ?thesis by simp
qed

text \<open>
  Claim C1, as stated, fails: a piece of the response without \<^verbatim>\<open>=\<close> makes \<^verbatim>\<open>update\<close>
  raise, and the pieces after it are not processed.
\<close>

theorem update_malformed_raises:
  "raised (update (answering ''OID1.2=Kitchen&garbage&OID4.1.13=712'')
      (init ''thermostat'' ''admin'' ''secret'')) = Some ValueError
   \<and> data (proxy (update (answering ''OID1.2=Kitchen&garbage&OID4.1.13=712'')
      (init ''thermostat'' ''admin'' ''secret''))) ''AverageTemp'' = None"
  by (simp add: update_response answering_def update_lines.simps OIDS_get_def OIDS_def init_def)

text \<open>
  Claim C1, amended. An empty piece of the response is skipped. A piece that is not
  empty and contains no \<^verbatim>\<open>=\<close> makes \<^verbatim>\<open>update\<close> raise \<^verbatim>\<open>ValueError\<close> there: the cache is
  what the pieces before it made of it, the piece itself changes no cached field, and
  the pieces after it are not processed.
\<close>

theorem update_malformed_line:
  assumes "post \<lparr>url = ''http://'' @ host p @ ''/get'', auth = (user p, passwd p),
                 body = all_oids\<rparr> = Inr resp"
    and "split_str CHR ''&'' resp = pre @ bad # rest"
    and "bad \<noteq> []" and "CHR ''='' \<notin> set bad"
    and "update_lines (data p) pre = (None, d')"
  shows "raised (update post p) = Some ValueError
         \<and> data (proxy (update post p)) = d'
         \<and> update_lines d ([] # ls) = update_lines d ls"
proof -
  have "update_lines d' (bad # rest) = (Some ValueError, d')"
    using assms(3,4) by (simp add: update_lines.simps split_str_no_sep)
  then have "update_lines (data p) (split_str CHR ''&'' resp) = (Some ValueError, d')"
    using assms(2,5) by (simp add: update_lines_append)
  then show ?thesis
    using assms(1) by (simp add: update_response update_lines.simps)
qed

theorem update_malformed_line_witness:
  "raised (update (answering ''OID4.1.4=2&garbage&OID4.1.13=712'')
      (init ''thermostat'' ''admin'' ''secret'')) = Some ValueError
   \<and> data (proxy (update (answering ''OID4.1.4=2&garbage&OID4.1.13=712'')
      (init ''thermostat'' ''admin'' ''secret''))) = [''FanState'' \<mapsto> PStr ''2'']"
proof -
  let ?p = "init ''thermostat'' ''admin'' ''secret''"
  let ?post = "answering ''OID4.1.4=2&garbage&OID4.1.13=712''"
  have a: "?post \<lparr>url = ''http://'' @ host ?p @ ''/get'', auth = (user ?p, passwd ?p),
                 body = all_oids\<rparr> = Inr ''OID4.1.4=2&garbage&OID4.1.13=712''"
    by (simp add: answering_def)
  have b: "split_str CHR ''&'' ''OID4.1.4=2&garbage&OID4.1.13=712''
      = [''OID4.1.4=2''] @ ''garbage'' # [''OID4.1.13=712'']"
    by simp
  have c: "''garbage'' \<noteq> []" "CHR ''='' \<notin> set ''garbage''"
    by simp_all
  have e: "update_lines (data ?p) [''OID4.1.4=2''] = (None, [''FanState'' \<mapsto> PStr ''2''])"
    by (simp add: update_lines.simps OIDS_get_def OIDS_def init_def)
  from update_malformed_line [of ?post ?p "''OID4.1.4=2&garbage&OID4.1.13=712''"
      "[''OID4.1.4=2'']" "''garbage''" "[''OID4.1.13=712'']" "[''FanState'' \<mapsto> PStr ''2'']",
      OF a b c e]
  show ?thesis by simp
qed

section \<open>The rounding of floating-point results\<close>

lemma round_half_even_nearest: "\<bar>of_int (round_half_even x) - x\<bar> \<le> 1 / 2"
proof -
  have "of_int \<lfloor>x\<rfloor> \<le> x" "x < of_int \<lfloor>x\<rfloor> + 1"
    by linarith+
  then show ?thesis
    by (auto simp: round_half_even_def Let_def)
qed

lemma ilog2_bounds:
  assumes "0 < a"
  shows "pow2 (ilog2 a) \<le> a \<and> a < pow2 (ilog2 a + 1)"
proof (cases "1 \<le> a")
  case True
  let ?n = "\<lfloor>a\<rfloor>"
  from True have n: "0 < ?n" by simp
  from bitlen_bounds [OF n] have b: "2 ^ nat (bitlen ?n - 1) \<le> ?n" "?n < 2 ^ nat (bitlen ?n)"
    by simp_all
  from n have bl: "1 \<le> bitlen ?n"
    using bitlen_eq_zero_iff [of ?n] bitlen_nonneg [of ?n] by linarith
  have "(2::rat) ^ nat (bitlen ?n - 1) \<le> of_int ?n"
    using b(1) by (metis of_int_le_iff of_int_numeral of_int_power)
  also have "\<dots> \<le> a" by simp
  finally have lo: "pow2 (bitlen ?n - 1) \<le> a"
    using bl by (simp add: pow2_def)
  have "?n + 1 \<le> 2 ^ nat (bitlen ?n)" using b(2) by simp
  then have "of_int (?n + 1) \<le> (2::rat) ^ nat (bitlen ?n)"
    by (metis of_int_le_iff of_int_numeral of_int_power)
  moreover have "a < of_int (?n + 1)" by simp linarith
  ultimately have hi: "a < pow2 (bitlen ?n)"
    using bl by (simp add: pow2_def)
  from lo hi True show ?thesis by (simp add: ilog2_def)
next
  case False
  let ?N = "\<lceil>1 / a\<rceil>"
  let ?m = "?N - 1"
  let ?b = "bitlen ?m"
  from False assms have inv: "1 < 1 / a" by simp
  then have N: "2 \<le> ?N" by (simp add: le_ceiling_iff)
  then have m: "0 < ?m" by simp
  from bitlen_bounds [OF m] have b: "2 ^ nat (?b - 1) \<le> ?m" "?m < 2 ^ nat ?b"
    by simp_all
  from m have bl: "1 \<le> ?b"
    using bitlen_eq_zero_iff [of ?m] bitlen_nonneg [of ?m] by linarith
  have "1 / a \<le> of_int ?N" by (rule le_of_int_ceiling)
  also have "of_int ?N \<le> (2::rat) ^ nat ?b"
  proof -
    from b(2) have "?N \<le> 2 ^ nat ?b" by simp
    then show ?thesis by (metis of_int_le_iff of_int_numeral of_int_power)
  qed
  finally have "1 / a \<le> 2 ^ nat ?b" .
  then have lo: "1 / 2 ^ nat ?b \<le> a"
    using assms by (simp add: field_simps)
  have "(2::rat) ^ nat (?b - 1) \<le> of_int ?m"
    using b(1) by (metis of_int_le_iff of_int_numeral of_int_power)
  also have "of_int ?m < 1 / a"
    using ceiling_correct [of "1 / a"] by simp
  finally have "2 ^ nat (?b - 1) < 1 / a" .
  then have hi: "a < 1 / 2 ^ nat (?b - 1)"
    using assms by (simp add: field_simps)
  have e: "ilog2 a = - ?b" using False by (simp add: ilog2_def)
  have p1: "pow2 (- ?b) = 1 / 2 ^ nat ?b"
    using bl by (simp add: pow2_def)
  have p2: "pow2 (- ?b + 1) = 1 / 2 ^ nat (?b - 1)"
  proof (cases "?b = 1")
    case True
    then show ?thesis by (simp add: pow2_def)
  next
    case False
    with bl have "- ?b + 1 < 0" by simp
    moreover have "nat (- (- ?b + 1)) = nat (?b - 1)" by simp
    ultimately show ?thesis by (simp add: pow2_def)
  qed
  from lo hi show ?thesis unfolding e p1 p2 by simp
qed

lemma pow2_powi: "pow2 e = 2 powi e"
  by (simp add: pow2_def power_int_def field_simps)

text \<open>A finite result of \<open>round_double\<close> is a binary64 number (a significand of at most 53
  bits at an exponent from \<open>-1074\<close> on) within half a unit in the last place of the
  argument.\<close>

lemma round_double_nearest:
  assumes "round_double r = Fin v"
  shows "\<exists>m e. v = of_int m * pow2 e \<and> \<bar>m\<bar> \<le> 2 ^ 53 \<and> - 1074 \<le> e
           \<and> \<bar>v - r\<bar> \<le> pow2 e / 2"
proof (cases "r = 0")
  case True
  with assms have "v = 0" by (simp add: round_double_def)
  with True have "v = of_int 0 * pow2 0 \<and> \<bar>0::int\<bar> \<le> 2 ^ 53 \<and> - 1074 \<le> (0::int)
      \<and> \<bar>v - r\<bar> \<le> pow2 0 / 2"
    by (simp add: pow2_def)
  then show ?thesis by blast
next
  case False
  define a where "a = \<bar>r\<bar>"
  define e where "e = max (ilog2 a - 52) (- 1074)"
  define m where "m = round_half_even (a / pow2 e)"
  have apos: "0 < a" using False by (simp add: a_def)
  have ppos: "0 < pow2 e" by (simp add: pow2_def)
  from assms False have v: "v = (if r < 0 then - (of_int m * pow2 e) else of_int m * pow2 e)"
    by (auto simp: round_double_def Let_def a_def e_def m_def split: if_splits)
  have near: "\<bar>of_int m - a / pow2 e\<bar> \<le> 1 / 2"
    unfolding m_def by (rule round_half_even_nearest)
  have "of_int m * pow2 e - a = (of_int m - a / pow2 e) * pow2 e"
    using ppos by (simp add: field_simps)
  then have "\<bar>of_int m * pow2 e - a\<bar> = \<bar>of_int m - a / pow2 e\<bar> * \<bar>pow2 e\<bar>"
    by (simp only: abs_mult)
  also have "\<dots> = \<bar>of_int m - a / pow2 e\<bar> * pow2 e"
    using ppos by simp
  also have "\<dots> \<le> 1 / 2 * pow2 e"
    using near ppos by (intro mult_right_mono) simp_all
  finally have dist: "\<bar>of_int m * pow2 e - a\<bar> \<le> pow2 e / 2" by simp
  have close: "\<bar>v - r\<bar> \<le> pow2 e / 2"
    using dist unfolding v a_def by (auto simp: abs_if split: if_splits)
  have "a < pow2 (ilog2 a + 1)" using ilog2_bounds [OF apos] by simp
  also have "pow2 (ilog2 a + 1) \<le> pow2 (e + 53)"
    unfolding pow2_powi by (rule power_int_increasing) (simp_all add: e_def)
  also have "pow2 (e + 53) = pow2 e * 2 ^ 53"
    unfolding pow2_powi by (simp add: power_int_add)
  finally have "a / pow2 e < 2 ^ 53"
    using ppos by (simp add: field_simps)
  moreover have "0 \<le> a / pow2 e" using apos ppos by simp
  ultimately have "0 \<le> m" "m \<le> 2 ^ 53"
  proof -
    assume lt: "a / pow2 e < 2 ^ 53" and ge: "0 \<le> a / pow2 e"
    from ge have "0 \<le> \<lfloor>a / pow2 e\<rfloor>" by simp
    then show "0 \<le> m" unfolding m_def by (auto simp: round_half_even_def Let_def)
    from lt have "\<lfloor>a / pow2 e\<rfloor> < 2 ^ 53"
      by (metis floor_less_iff of_int_numeral of_int_power)
    then show "m \<le> 2 ^ 53" unfolding m_def by (auto simp: round_half_even_def Let_def)
  qed
  then have mb: "\<bar>m\<bar> \<le> 2 ^ 53" "\<bar>- m\<bar> \<le> 2 ^ 53" by simp_all
  have eb: "- 1074 \<le> e" by (simp add: e_def)
  show ?thesis
  proof (cases "r < 0")
    case True
    with v have "v = of_int (- m) * pow2 e" by simp
    with mb(2) eb close show ?thesis by blast
  next
    case False
    with v have "v = of_int m * pow2 e" by simp
    with mb(1) eb close show ?thesis by blast
  qed
qed

section \<open>Evaluating floating-point operations\<close>

text \<open>Rules that let the simplifier compute \<open>round_double\<close> on numerals.\<close>

lemma floor_rat_numeral:
  "\<lfloor>(numeral a :: rat) / numeral b\<rfloor> = numeral a div numeral b"
  using floor_divide_of_int_eq [of "numeral a" "numeral b", where ?'a = rat] by simp

lemma ceiling_rat_numeral:
  "\<lceil>(numeral a :: rat) / numeral b\<rceil> = - (- numeral a div numeral b)"
  using floor_divide_of_int_eq [of "- numeral a" "numeral b", where ?'a = rat]
  by (simp add: ceiling_def)

lemma bitlen_numeral: "bitlen (numeral k) = bitlen (numeral k div 2) + 1"
  by (subst compute_bitlen) simp

lemma bitlen_one: "bitlen 1 = 1"
  by (subst compute_bitlen) simp

lemmas float_eval =
  floor_rat_numeral ceiling_rat_numeral bitlen_numeral bitlen_one
  round_double_def ilog2_def pow2_def round_half_even_def Let_def

lemma int_to_float_10: "int_to_float 10 = Inr (Fin 10)"
  by (simp add: int_to_float_def float_eval)

lemma float_of_str_712: "float_of_str ''712'' = Inr (Fin 712)"
  by (simp add: float_of_str_def strip_space_def is_space_def decimal_value_def
      is_digit_def digit_val_def underscore_digit_def exponent_part_def digits_value_def
      pow10_def lower_char_def fl_zero_def float_eval)

lemma float_div_712: "float_div_int (Fin 712) 10 = Inr (float_literal (712 / 10))"
  by (simp add: float_div_int_def int_to_float_10 fl_div_def float_literal_def float_eval)

lemma float_literal_71_2:
  "float_literal (712 / 10) = Fin (5010254585449677 / 70368744177664)"
  by (simp add: float_literal_def float_eval)

text \<open>
  Claim C4. A piece \<^verbatim>\<open>key=value\<close> of the response (neither part contains \<^verbatim>\<open>=\<close>), reached by
  the loop without an exception, is handled as follows: the key less its first three
  characters is looked up in the table; a found name gets the value as a string, replacing
  what was cached; an identifier that is not in the table changes nothing; the loop goes
  on with the next piece. After the response \<^verbatim>\<open>OID1.2=Kitchen&OID4.1.13=712\<close> the name is
  \<^verbatim>\<open>Kitchen\<close> and the current temperature is the float \<^verbatim>\<open>71.2\<close>.
\<close>

theorem update_wellformed_pair:
  assumes "CHR ''='' \<notin> set key" and "CHR ''='' \<notin> set w"
    and "update_lines d pre = (None, d1)"
  shows "update_lines d (pre @ (key @ ''='' @ w) # rest)
           = update_lines (case OIDS_get (drop 3 key) of
                             Some nm \<Rightarrow> d1(nm \<mapsto> PStr w)
                           | None \<Rightarrow> d1) rest
         \<and> raised (update (answering ''OID1.2=Kitchen&OID4.1.13=712'') p) = None
         \<and> name (proxy (update (answering ''OID1.2=Kitchen&OID4.1.13=712'') p))
             = Inr (PStr ''Kitchen'')
         \<and> cur_temp (proxy (update (answering ''OID1.2=Kitchen&OID4.1.13=712'') p))
             = Inr (float_literal (712 / 10))"
proof -
  have pair: "split_str CHR ''='' (key @ ''='' @ w) = [key, w]"
    using assms(1,2) by (simp add: split_str_pair)
  have "update_lines d1 ((key @ ''='' @ w) # rest)
      = update_lines (case OIDS_get (drop 3 key) of
                        Some nm \<Rightarrow> d1(nm \<mapsto> PStr w)
                      | None \<Rightarrow> d1) rest"
    using pair by (auto simp: update_lines.simps dest: OIDS_get_nonempty split: option.split)
  then have step: "update_lines d (pre @ (key @ ''='' @ w) # rest)
      = update_lines (case OIDS_get (drop 3 key) of
                        Some nm \<Rightarrow> d1(nm \<mapsto> PStr w)
                      | None \<Rightarrow> d1) rest"
    using assms(3) by (simp add: update_lines_append)
  let ?q = "proxy (update (answering ''OID1.2=Kitchen&OID4.1.13=712'') p)"
  have upd: "update (answering ''OID1.2=Kitchen&OID4.1.13=712'') p =
      \<lparr>raised = None,
       proxy = p\<lparr>data := (data p)(''DevName'' \<mapsto> PStr ''Kitchen'',
                                  ''AverageTemp'' \<mapsto> PStr ''712'')\<rparr>,
       sent = [\<lparr>url = ''http://'' @ host p @ ''/get'', auth = (user p, passwd p),
                 body = all_oids\<rparr>]\<rparr>"
    by (simp only: update_response [of "answering ''OID1.2=Kitchen&OID4.1.13=712''" p
          "''OID1.2=Kitchen&OID4.1.13=712''", OF answering_def] update_lines_example fst_conv snd_conv)
  have nm: "name ?q = Inr (PStr ''Kitchen'')"
    by (simp add: upd name_def data_get_def)
  have "cur_temp ?q = Inr (float_literal (712 / 10))"
    by (simp add: upd cur_temp_def data_get_def float_of_str_712 float_div_712)
  with step nm upd show ?thesis by simp
qed

theorem update_wellformed_pair_witness:
  "update_lines Map.empty ([''OID9.9=7''] @ (''OID1.2'' @ ''='' @ ''Kitchen'') # [''OID4.1.13=712''])
     = (None, [''DevName'' \<mapsto> PStr ''Kitchen'', ''AverageTemp'' \<mapsto> PStr ''712''])
   \<and> cur_temp (proxy (update (answering ''OID1.2=Kitchen&OID4.1.13=712'')
        (init ''thermostat'' ''admin'' ''secret'')))
      = Inr (Fin (5010254585449677 / 70368744177664))"
proof -
  have a: "CHR ''='' \<notin> set ''OID1.2''" "CHR ''='' \<notin> set ''Kitchen''"
    by simp_all
  have b: "update_lines Map.empty [''OID9.9=7''] = (None, Map.empty)"
    by (simp add: update_lines.simps OIDS_get_def OIDS_def)
  have c: "update_lines (case OIDS_get (drop 3 ''OID1.2'') of
                Some nm \<Rightarrow> Map.empty(nm \<mapsto> PStr ''Kitchen'') | None \<Rightarrow> Map.empty)
             [''OID4.1.13=712'']
      = (None, [''DevName'' \<mapsto> PStr ''Kitchen'', ''AverageTemp'' \<mapsto> PStr ''712''])"
    by (simp add: update_lines.simps OIDS_get_def OIDS_def)
  from update_wellformed_pair [of "''OID1.2''" "''Kitchen''" Map.empty "[''OID9.9=7'']" Map.empty
      "[''OID4.1.13=712'']" "init ''thermostat'' ''admin'' ''secret''", OF a b] c
  show ?thesis by (simp only: float_literal_71_2)
qed

section \<open>Field writes\<close>

lemma get_oid_Some_iff: "get_oid nm = Some i \<longleftrightarrow> (i, nm) \<in> set OIDS"
  unfolding get_oid_def by (rule get_oid_loop_Some_iff [OF OIDS_names_distinct])

lemma get_oid_inj: "get_oid k = Some i \<Longrightarrow> get_oid k' = Some i \<Longrightarrow> k = k'"
  using OIDS_keys_distinct by (auto simp: get_oid_Some_iff dest: eq_key_imp_eq_value)

lemma quote_plus_oid: "get_oid k = Some i \<Longrightarrow> quote_plus (''OID'' @ i) = ''OID'' @ i"
  by (auto simp: get_oid_Some_iff OIDS_def quote_plus_def quote_char_def is_unreserved_def)

lemma dict_set_fresh: "k \<notin> fst ` set acc \<Longrightarrow> dict_set acc k v = acc @ [(k, v)]"
  by (induction acc) auto

text \<open>With distinct keyword names the loop of \<^verbatim>\<open>_set\<close> appends one entry per name that
  has an identifier, in the order of the arguments.\<close>

lemma set_loop_distinct:
  assumes "distinct (map fst kwargs)"
    and "\<And>k v i. (k, v) \<in> set kwargs \<Longrightarrow> get_oid k = Some i \<Longrightarrow> ''OID'' @ i \<notin> fst ` set acc"
  shows "set_loop acc kwargs =
         acc @ concat (map (\<lambda>(k, v). case get_oid k of
                                        None \<Rightarrow> []
                                      | Some i \<Rightarrow> [(''OID'' @ i, v)]) kwargs)"
  using assms
proof (induction kwargs arbitrary: acc)
  case Nil
  then show ?case by simp
next
  case (Cons kv kwargs)
  obtain k v where kv: "kv = (k, v)" by (cases kv)
  from Cons.prems(1) have dist: "distinct (map fst kwargs)" and knew: "k \<notin> fst ` set kwargs"
    by (simp_all add: kv)
  show ?case
  proof (cases "get_oid k")
    case None
    have "set_loop acc kwargs =
         acc @ concat (map (\<lambda>(k, v). case get_oid k of
                                        None \<Rightarrow> []
                                      | Some i \<Rightarrow> [(''OID'' @ i, v)]) kwargs)"
      by (rule Cons.IH [OF dist]) (use Cons.prems(2) in auto)
    with None show ?thesis by (simp add: kv)
  next
    case (Some i)
    then have ne: "i \<noteq> []" by (rule get_oid_nonempty)
    have fresh: "''OID'' @ i \<notin> fst ` set acc"
      using Cons.prems(2) [of k v i] Some by (simp add: kv)
    have "set_loop (acc @ [(''OID'' @ i, v)]) kwargs =
         (acc @ [(''OID'' @ i, v)]) @ concat (map (\<lambda>(k, v). case get_oid k of
                                        None \<Rightarrow> []
                                      | Some i \<Rightarrow> [(''OID'' @ i, v)]) kwargs)"
    proof (rule Cons.IH [OF dist])
      fix k' v' i'
      assume mem: "(k', v') \<in> set kwargs" and res: "get_oid k' = Some i'"
      from mem knew have "k' \<noteq> k" by force
      with res Some have "i' \<noteq> i" using get_oid_inj by blast
      moreover have "''OID'' @ i' \<notin> fst ` set acc"
        using Cons.prems(2) [of k' v' i'] mem res by simp
      ultimately show "''OID'' @ i' \<notin> fst ` set (acc @ [(''OID'' @ i, v)])"
        by simp
    qed
    with Some ne fresh show ?thesis by (simp add: kv dict_set_fresh)
  qed
qed

lemma urlencode_tokens:
  "urlencode (concat (map (\<lambda>(k, v). case get_oid k of
                                        None \<Rightarrow> []
                                      | Some i \<Rightarrow> [(''OID'' @ i, v)]) kwargs))
   = join_str ''&'' (concat (map (\<lambda>(k, v). case get_oid k of
        None \<Rightarrow> []
      | Some i \<Rightarrow> [''OID'' @ i @ ''='' @ quote_plus (py_str v)]) kwargs))"
proof -
  have "map (\<lambda>(k, v). quote_plus k @ ''='' @ quote_plus (py_str v))
          (concat (map (\<lambda>(k, v). case get_oid k of
                                        None \<Rightarrow> []
                                      | Some i \<Rightarrow> [(''OID'' @ i, v)]) kwargs))
      = concat (map (\<lambda>(k, v). case get_oid k of
        None \<Rightarrow> []
      | Some i \<Rightarrow> [''OID'' @ i @ ''='' @ quote_plus (py_str v)]) kwargs)"
    by (induction kwargs) (auto simp: quote_plus_oid [simplified] split: option.split)
  then show ?thesis by (simp add: urlencode_def)
qed

text \<open>
  Claim C6. \<^verbatim>\<open>_set\<close> called with keyword arguments (distinct names, as the keywords of a
  call are) sends one request to \<^verbatim>\<open>/pdp\<close> with the credentials of the proxy. Its body is
  the tokens \<^verbatim>\<open>OID<id>=<value>\<close>, the value form-encoded, of the names that have an
  identifier, in the order of the arguments and joined by \<^verbatim>\<open>&\<close>, followed by
  \<^verbatim>\<open>&submit=Submit\<close>. A name without an identifier contributes nothing and raises
  nothing: the only exception \<^verbatim>\<open>_set\<close> can end with is the one of the transport. The
  cache is not touched.
\<close>

theorem pdp_set_request:
  assumes "distinct (map fst kwargs)"
  shows "let rq = \<lparr>url = ''http://'' @ host p @ ''/pdp'',
                   auth = (user p, passwd p),
                   body = join_str ''&'' (concat (map (\<lambda>(k, v). case get_oid k of
                              None \<Rightarrow> []
                            | Some i \<Rightarrow> [''OID'' @ i @ ''='' @ quote_plus (py_str v)]) kwargs))
                          @ ''&submit=Submit''\<rparr>
         in pdp_set post p kwargs =
              \<lparr>raised = (case post rq of Inl e \<Rightarrow> Some e | Inr _ \<Rightarrow> None),
               proxy = p, sent = [rq]\<rparr>"
proof -
  have "set_loop [] kwargs =
         [] @ concat (map (\<lambda>(k, v). case get_oid k of
                                        None \<Rightarrow> []
                                      | Some i \<Rightarrow> [(''OID'' @ i, v)]) kwargs)"
    by (rule set_loop_distinct [OF assms]) simp
  then show ?thesis
    by (simp add: pdp_set_def urlencode_tokens Let_def split: sum.split)
qed

lemma digit_char_unreserved:
  assumes "0 \<le> d" and "d < 10"
  shows "is_unreserved (char_of (48 + d :: int))"
proof -
  from assms
  have "d = 0 \<or> d = 1 \<or> d = 2 \<or> d = 3 \<or> d = 4 \<or> d = 5 \<or> d = 6 \<or> d = 7 \<or> d = 8 \<or> d = 9"
    by arith
  then show ?thesis by (auto simp: is_unreserved_def char_of_def)
qed

lemma str_digits_unreserved:
  "0 \<le> n \<Longrightarrow> c \<in> set (str_digits n) \<Longrightarrow> is_unreserved c"
proof (induction n rule: str_digits.induct)
  case (1 n)
  show ?case
  proof (cases "n < 10")
    case True
    with "1.prems" show ?thesis
      by (simp add: str_digits.simps [of n] digit_char_unreserved)
  next
    case False
    with "1.prems" have "c \<in> set (str_digits (n div 10)) \<or> c = char_of (48 + n mod 10)"
      by (auto simp: str_digits.simps [of n])
    then show ?thesis
    proof
      assume "c \<in> set (str_digits (n div 10))"
      with "1.IH" False "1.prems"(1) show ?thesis by simp
    next
      assume "c = char_of (48 + n mod 10)"
      then show ?thesis by (simp add: digit_char_unreserved)
    qed
  qed
qed

lemma quote_plus_unreserved: "(\<And>c. c \<in> set s \<Longrightarrow> is_unreserved c) \<Longrightarrow> quote_plus s = s"
  by (induction s) (simp_all add: quote_plus_def quote_char_def)

text \<open>The decimal form of an integer passes through form encoding unchanged.\<close>

lemma quote_plus_str_int: "quote_plus (str_int n) = str_int n"
proof (rule quote_plus_unreserved)
  fix c
  assume "c \<in> set (str_int n)"
  then show "is_unreserved c"
    by (cases "n < 0")
      (auto simp: str_int_def is_unreserved_def dest: str_digits_unreserved [rotated])
qed

lemma str_int_683: "str_int 683 = ''683''"
  by (simp add: str_int_def str_digits.simps char_of_def)

theorem pdp_set_request_witness:
  "distinct (map fst [(''SetbackHeat'', PInt 683), (''Bogus'', PStr ''x''),
                      (''SetbackCool'', PStr ''75 0'')])
   \<and> pdp_set (answering '''') (init ''thermostat'' ''admin'' ''secret'')
        [(''SetbackHeat'', PInt 683), (''Bogus'', PStr ''x''), (''SetbackCool'', PStr ''75 0'')]
      = \<lparr>raised = None, proxy = init ''thermostat'' ''admin'' ''secret'',
         sent = [\<lparr>url = ''http://thermostat/pdp'', auth = (''admin'', ''secret''),
                   body = ''OID4.1.5=683&OID4.1.6=75+0&submit=Submit''\<rparr>]\<rparr>"
proof -
  have d: "distinct (map fst [(''SetbackHeat'', PInt 683), (''Bogus'', PStr ''x''),
                      (''SetbackCool'', PStr ''75 0'')])"
    by simp
  have g: "get_oid ''SetbackHeat'' = Some ''4.1.5''" "get_oid ''Bogus'' = None"
    "get_oid ''SetbackCool'' = Some ''4.1.6''"
    by (simp_all add: get_oid_def OIDS_def)
  have q: "quote_plus ''75 0'' = ''75+0''"
    by (simp add: quote_plus_def quote_char_def is_unreserved_def)
  have q2: "quote_plus ''683'' = ''683''"
    using quote_plus_str_int [of 683] by (simp add: str_int_683)
  from pdp_set_request [OF d, of "init ''thermostat'' ''admin'' ''secret''" "answering ''''"] d
  show ?thesis
    by (simp add: Let_def g q q2 str_int_683 answering_def init_def)
qed

section \<open>The setter of the heating setback\<close>

lemma float_literal_68_3:
  "float_literal (683 / 10) = Fin (4806185227334451 / 70368744177664)"
  by (simp add: float_literal_def float_eval)

lemma mul_68_3: "num_mul_int (NFloat (float_literal (683 / 10))) 10 = Inr (NFloat (Fin 683))"
  by (simp only: float_literal_68_3) (simp add: int_to_float_10 fl_mul_def float_eval)

lemma float_literal_68_05:
  "float_literal (6805 / 100) = Fin (4788593041290035 / 70368744177664)"
  by (simp add: float_literal_def float_eval)

lemma mul_68_05:
  "num_mul_int (NFloat (float_literal (6805 / 100))) 10 = Inr (NFloat (Fin (1361 / 2)))"
  by (simp only: float_literal_68_05) (simp add: int_to_float_10 fl_mul_def float_eval)

lemma float_literal_neg_7_25: "float_literal (- (725 / 100)) = Fin (- (29 / 4))"
  by (simp add: float_literal_def float_eval)

lemma mul_neg_7_25:
  "num_mul_int (NFloat (float_literal (- (725 / 100)))) 10 = Inr (NFloat (Fin (- (145 / 2))))"
  by (simp only: float_literal_neg_7_25) (simp add: int_to_float_10 fl_mul_def float_eval)

lemma str_int_neg_72: "str_int (- 72) = ''-72''"
  by (simp add: str_int_def str_digits.simps char_of_def)

text \<open>\<^verbatim>\<open>int\<close> of a finite float is the integer next to it in the direction of zero.\<close>

lemma float_to_int_truncates:
  assumes "float_to_int (Fin r) = Inr n"
  shows "\<bar>of_int n\<bar> \<le> \<bar>r\<bar> \<and> \<bar>r - of_int n\<bar> < 1"
proof (cases "0 \<le> r")
  case True
  with assms have n: "n = \<lfloor>r\<rfloor>" by simp
  have "(0::rat) \<le> of_int \<lfloor>r\<rfloor>" using True by simp
  moreover have "of_int \<lfloor>r\<rfloor> \<le> r" by (rule of_int_floor_le)
  moreover have "r < of_int \<lfloor>r\<rfloor> + 1" by linarith
  ultimately show ?thesis unfolding n by linarith
next
  case False
  with assms have n: "n = \<lceil>r\<rceil>" by simp
  from False have "\<lceil>r\<rceil> \<le> 0" by (simp add: ceiling_le_iff)
  then have "of_int \<lceil>r\<rceil> \<le> (0::rat)" by simp
  moreover have "r \<le> of_int \<lceil>r\<rceil>" by (rule le_of_int_ceiling)
  moreover have "of_int \<lceil>r\<rceil> < r + 1" by linarith
  ultimately show ?thesis unfolding n using False by linarith
qed

lemma setback_heat_set_stored:
  assumes "num_mul_int val 10 = Inr t" and "num_to_int t = Inr n"
  shows "setback_heat_set post p val =
         pdp_set post (p\<lparr>data := (data p)(''SetbackHeat'' \<mapsto> PInt n)\<rparr>)
           [(''SetbackHeat'', PInt n)]"
  using assms by (simp add: setback_heat_set_def data_get_def)

lemma pdp_set_setback_heat:
  "pdp_set post q [(''SetbackHeat'', PInt n)] =
     \<lparr>raised = (case post \<lparr>url = ''http://'' @ host q @ ''/pdp'', auth = (user q, passwd q),
                              body = ''OID4.1.5='' @ str_int n @ ''&submit=Submit''\<rparr> of
                  Inl e \<Rightarrow> Some e | Inr _ \<Rightarrow> None),
      proxy = q,
      sent = [\<lparr>url = ''http://'' @ host q @ ''/pdp'', auth = (user q, passwd q),
                body = ''OID4.1.5='' @ str_int n @ ''&submit=Submit''\<rparr>]\<rparr>"
proof -
  have g: "get_oid ''SetbackHeat'' = Some ''4.1.5''"
    by (simp add: get_oid_def OIDS_def)
  have q: "quote_plus ''OID4.1.5'' = ''OID4.1.5''"
    by (simp add: quote_plus_def quote_char_def is_unreserved_def)
  show ?thesis
    by (simp add: pdp_set_def g urlencode_def q quote_plus_str_int split: sum.split)
qed

text \<open>
  Claim C3. When the setter gets as far as storing (the product \<^verbatim>\<open>val * 10\<close> and its
  conversion to \<^verbatim>\<open>int\<close> raise nothing), it stores the integer \<^verbatim>\<open>int(val * 10)\<close> under
  \<^verbatim>\<open>SetbackHeat\<close> and sends one write whose body is the token \<^verbatim>\<open>OID4.1.5=\<close> with that
  integer, followed by \<^verbatim>\<open>&submit=Submit\<close>. For a float the product is the float product
  with \<^verbatim>\<open>10.0\<close> and the integer is that product truncated toward zero. Setting \<^verbatim>\<open>68.3\<close>
  stores \<^verbatim>\<open>683\<close> and sends \<^verbatim>\<open>OID4.1.5=683\<close>; setting \<^verbatim>\<open>68.05\<close> stores \<^verbatim>\<open>680\<close>, not
  \<^verbatim>\<open>681\<close>.
\<close>

theorem setback_heat_set_truncates:
  assumes "num_mul_int val 10 = Inr t" and "num_to_int t = Inr n"
  shows "data (proxy (setback_heat_set post p val)) = (data p)(''SetbackHeat'' \<mapsto> PInt n)
         \<and> sent (setback_heat_set post p val) =
             [\<lparr>url = ''http://'' @ host p @ ''/pdp'', auth = (user p, passwd p),
               body = ''OID4.1.5='' @ str_int n @ ''&submit=Submit''\<rparr>]
         \<and> (\<forall>x. val = NFloat x \<longrightarrow> t = NFloat (fl_mul x (Fin 10)))
         \<and> (\<forall>r. t = NFloat (Fin r) \<longrightarrow> \<bar>of_int n\<bar> \<le> \<bar>r\<bar> \<and> \<bar>r - of_int n\<bar> < 1)
         \<and> data (proxy (setback_heat_set post p (NFloat (float_literal (683 / 10)))))
              ''SetbackHeat'' = Some (PInt 683)
         \<and> sent (setback_heat_set post p (NFloat (float_literal (683 / 10)))) =
             [\<lparr>url = ''http://'' @ host p @ ''/pdp'', auth = (user p, passwd p),
               body = ''OID4.1.5=683&submit=Submit''\<rparr>]
         \<and> data (proxy (setback_heat_set post p (NFloat (float_literal (6805 / 100)))))
              ''SetbackHeat'' = Some (PInt 680)"
proof -
  have stored: "data (proxy (setback_heat_set post p val)) = (data p)(''SetbackHeat'' \<mapsto> PInt n)"
    by (simp add: setback_heat_set_stored [OF assms] pdp_set_setback_heat)
  have request: "sent (setback_heat_set post p val) =
             [\<lparr>url = ''http://'' @ host p @ ''/pdp'', auth = (user p, passwd p),
               body = ''OID4.1.5='' @ str_int n @ ''&submit=Submit''\<rparr>]"
    by (simp add: setback_heat_set_stored [OF assms] pdp_set_setback_heat)
  have product: "t = NFloat (fl_mul x (Fin 10))" if "val = NFloat x" for x
    using assms(1) that by (simp add: int_to_float_10)
  have trunc: "\<bar>of_int n\<bar> \<le> \<bar>r\<bar> \<and> \<bar>r - of_int n\<bar> < 1" if "t = NFloat (Fin r)" for r
    using assms(2) that by (simp add: float_to_int_truncates)
  have i683: "num_to_int (NFloat (Fin 683)) = Inr 683"
    by simp
  have i680: "num_to_int (NFloat (Fin (1361 / 2))) = Inr 680"
    by (simp add: floor_rat_numeral)
  have e1: "data (proxy (setback_heat_set post p (NFloat (float_literal (683 / 10)))))
              ''SetbackHeat'' = Some (PInt 683)"
    by (simp only: setback_heat_set_stored [OF mul_68_3 i683] pdp_set_setback_heat) simp
  have e2: "sent (setback_heat_set post p (NFloat (float_literal (683 / 10)))) =
             [\<lparr>url = ''http://'' @ host p @ ''/pdp'', auth = (user p, passwd p),
               body = ''OID4.1.5=683&submit=Submit''\<rparr>]"
    by (simp only: setback_heat_set_stored [OF mul_68_3 i683] pdp_set_setback_heat str_int_683)
      simp
  have e3: "data (proxy (setback_heat_set post p (NFloat (float_literal (6805 / 100)))))
              ''SetbackHeat'' = Some (PInt 680)"
    by (simp only: setback_heat_set_stored [OF mul_68_05 i680] pdp_set_setback_heat) simp
  from stored request product trunc e1 e2 e3 show ?thesis by blast
qed

theorem setback_heat_set_truncates_witness:
  "num_mul_int (NFloat (float_literal (- (725 / 100)))) 10 = Inr (NFloat (Fin (- (145 / 2))))
   \<and> num_to_int (NFloat (Fin (- (145 / 2)))) = Inr (- 72)
   \<and> data (proxy (setback_heat_set (answering '''') (init ''thermostat'' ''admin'' ''secret'')
        (NFloat (float_literal (- (725 / 100)))))) = [''SetbackHeat'' \<mapsto> PInt (- 72)]
   \<and> sent (setback_heat_set (answering '''') (init ''thermostat'' ''admin'' ''secret'')
        (NFloat (float_literal (- (725 / 100))))) =
       [\<lparr>url = ''http://thermostat/pdp'', auth = (''admin'', ''secret''),
         body = ''OID4.1.5=-72&submit=Submit''\<rparr>]"
proof -
  have i: "num_to_int (NFloat (Fin (- (145 / 2)))) = Inr (- 72)"
    by (simp add: ceiling_minus floor_rat_numeral)
  from setback_heat_set_truncates [OF mul_neg_7_25 i,
      of "answering ''''" "init ''thermostat'' ''admin'' ''secret''"] mul_neg_7_25 i
  show ?thesis
    by (simp only: str_int_neg_72) (simp add: init_def)
qed

text \<open>
  Claim C2, as stated, fails: the setter stores an integer, not a string.
\<close>

theorem setter_stores_integer:
  "data (proxy (setback_heat_set (answering '''') (init ''thermostat'' ''admin'' ''secret'')
      (NFloat (float_literal (683 / 10))))) ''SetbackHeat'' = Some (PInt 683)
   \<and> PInt 683 \<noteq> PStr ''683''"
proof -
  have i683: "num_to_int (NFloat (Fin 683)) = Inr 683"
    by simp
  show ?thesis
    by (simp only: setback_heat_set_stored [OF mul_68_3 i683] pdp_set_setback_heat) simp
qed

text \<open>
  Claim C2, amended. Every value that \<^verbatim>\<open>update\<close> stores in the cache is a string: after
  \<^verbatim>\<open>update\<close> a field holds what it held before or a string. The setter of the heating
  setback stores an integer under \<^verbatim>\<open>SetbackHeat\<close>, unless it raises before it stores
  anything (and then it sends nothing). \<^verbatim>\<open>_set\<close> does not write to the cache.
\<close>

theorem cache_value_types:
  "(data (proxy (update post p)) k = data p k
      \<or> (\<exists>s. data (proxy (update post p)) k = Some (PStr s)))
   \<and> ((\<exists>n. data (proxy (setback_heat_set post p val)) = (data p)(''SetbackHeat'' \<mapsto> PInt n))
      \<or> (proxy (setback_heat_set post p val) = p \<and> sent (setback_heat_set post p val) = []))
   \<and> proxy (pdp_set post p kwargs) = p"
proof -
  let ?rq = "\<lparr>url = ''http://'' @ host p @ ''/get'', auth = (user p, passwd p),
               body = all_oids\<rparr>"
  have a: "data (proxy (update post p)) k = data p k
      \<or> (\<exists>s. data (proxy (update post p)) k = Some (PStr s))"
  proof (cases "post ?rq")
    case (Inl e)
    then show ?thesis by (simp add: update_transport_error)
  next
    case (Inr resp)
    then show ?thesis
      using update_lines_stores_strings [of "data p" "split_str CHR ''&'' resp" k]
      by (simp add: update_response)
  qed
  have b: "(\<exists>n. data (proxy (setback_heat_set post p val)) = (data p)(''SetbackHeat'' \<mapsto> PInt n))
      \<or> (proxy (setback_heat_set post p val) = p \<and> sent (setback_heat_set post p val) = [])"
  proof (cases "num_mul_int val 10")
    case (Inl e)
    then show ?thesis by (simp add: setback_heat_set_def)
  next
    case t: (Inr t)
    show ?thesis
    proof (cases "num_to_int t")
      case (Inl e)
      with t show ?thesis by (simp add: setback_heat_set_def)
    next
      case (Inr n)
      have "data (proxy (setback_heat_set post p val)) = (data p)(''SetbackHeat'' \<mapsto> PInt n)"
        by (simp add: setback_heat_set_stored [OF t Inr] pdp_set_setback_heat)
      then show ?thesis by blast
    qed
  qed
  have c: "proxy (pdp_set post p kwargs) = p"
    by (simp add: pdp_set_def Let_def split: sum.split)
  from a b c show ?thesis by blast
qed

end
